theory Spec2Isabelle
  imports Main "HOL-Library.Sublist"
begin

section \<open>dinodoro: the focus timer of \<^verbatim>\<open>src/dinodoro.ts\<close>\<close>

text \<open>
  The program parses its flags, selects one of three operating modes in \<^verbatim>\<open>main\<close>,
  registers timers with \<^verbatim>\<open>setTimeout\<close>, and then only reacts to timers. The model has
  three layers:
  \<^item> values: JavaScript numbers that may be \<^verbatim>\<open>NaN\<close>, strings as byte lists, the parsed
    flags as a record;
  \<^item> effects: every console line and every call of \<^verbatim>\<open>runCommand\<close> is an \<open>action\<close>;
    a function with effects returns the list of its actions, and a function that calls
    \<^verbatim>\<open>setTimeout\<close> also returns its registrations (delay and callback);
  \<^item> the event loop: a queue of pending timers ordered by firing time, and \<open>run\<close>,
    which fires them one after the other and yields the timed trace of actions.
  Time is virtual, in milliseconds, and starts at 0 when \<^verbatim>\<open>main\<close> resumes after its
  awaited start-up query; everything \<^verbatim>\<open>main\<close> does after that is synchronous. The
  timer facility is taken to honour every delay it is given. The \<^verbatim>\<open>--help\<close> branch,
  which exits before \<^verbatim>\<open>main\<close> is called, is left out.
\<close>

subsection \<open>Values\<close>

text \<open>
  A JavaScript number as far as the program produces one: an integer, or \<^verbatim>\<open>NaN\<close> out of
  \<^verbatim>\<open>parseInt\<close>. The durations and the cycle count of the flags are taken integral.
\<close>

datatype jsnum = Num int | NaN

datatype mode = System | Music | YouTube

text \<open>
  The object returned by \<^verbatim>\<open>parse(Deno.args, ...)\<close>, restricted to the properties the
  program reads: \<^verbatim>\<open>flags.work\<close>, \<^verbatim>\<open>flags.break\<close>, \<^verbatim>\<open>flags.interval\<close>,
  \<^verbatim>\<open>flags.playlist\<close> (a string or undefined), \<^verbatim>\<open>flags.search\<close>,
  \<^verbatim>\<open>flags.lastBreak\<close> (read for its truthiness) and \<^verbatim>\<open>flags._[0]\<close>
  (typed \<^verbatim>\<open>string | undefined\<close> by the source).
\<close>

record flags =
  work :: int
  break :: int
  interval :: int
  playlist :: "string option"
  search :: bool
  lastBreak :: bool
  positional :: "string option"

definition WORK_INTERVAL_MS :: "flags \<Rightarrow> int" where
  "WORK_INTERVAL_MS f = work f * 60 * 1000"

definition BREAK_INTERVAL_MS :: "flags \<Rightarrow> int" where
  "BREAK_INTERVAL_MS f = break f * 60 * 1000"

definition CYCLE_DURATION_MS :: "flags \<Rightarrow> int" where
  "CYCLE_DURATION_MS f = WORK_INTERVAL_MS f + BREAK_INTERVAL_MS f"

text \<open>The two module-level variables, with their initial values.\<close>

record globals =
  originalVolume :: jsnum
  operatingMode :: mode

definition initial_globals :: globals where
  "initial_globals = \<lparr>originalVolume = Num 50, operatingMode = System\<rparr>"

subsection \<open>Strings\<close>

definition dq :: char where "dq = CHR 0x22"
definition sq :: char where "sq = CHR 0x27"
definition backslash :: char where "backslash = CHR 0x5C"
definition newline :: char where "newline = CHR 0x0A"

text \<open>White space and line terminators of JavaScript within ASCII.\<close>

definition is_space :: "char \<Rightarrow> bool" where
  "is_space c = (c \<in> {CHR 0x09, CHR 0x0A, CHR 0x0B, CHR 0x0C, CHR 0x0D, CHR 0x20})"

definition trim :: "string \<Rightarrow> string" where
  "trim s = rev (dropWhile is_space (rev (dropWhile is_space s)))"

definition is_digit :: "char \<Rightarrow> bool" where
  "is_digit c = (48 \<le> (of_char c :: nat) \<and> (of_char c :: nat) \<le> 57)"

definition digit_val :: "char \<Rightarrow> int" where
  "digit_val c = int (of_char c) - 48"

text \<open>
  \<^verbatim>\<open>parseInt(s, 10)\<close>: leading white space is skipped, one sign is read, then the
  longest run of decimal digits; with no digit the result is \<^verbatim>\<open>NaN\<close>.
\<close>

definition parseInt :: "string \<Rightarrow> jsnum" where
  "parseInt s =
     (let s1 = dropWhile is_space s;
          neg = (s1 \<noteq> [] \<and> hd s1 = CHR ''-'');
          s2 = (if s1 \<noteq> [] \<and> (hd s1 = CHR ''-'' \<or> hd s1 = CHR ''+'') then tl s1 else s1);
          ds = takeWhile is_digit s2
      in if ds = [] then NaN
         else Num ((if neg then - 1 else 1) * foldl (\<lambda>a c. 10 * a + digit_val c) 0 ds))"

text \<open>Decimal rendering of a number inside a template literal.\<close>

function show_nat :: "nat \<Rightarrow> string" where
  "show_nat n =
     (if n < 10 then [char_of (48 + n)]
      else show_nat (n div 10) @ [char_of (48 + n mod 10)])"
  by pat_completeness auto
termination
  by (relation "measure id") auto

declare show_nat.simps [simp del]

fun toString :: "jsnum \<Rightarrow> string" where
  "toString NaN = ''NaN''"
| "toString (Num i) = (if i < 0 then CHR ''-'' # show_nat (nat (- i)) else show_nat (nat i))"

text \<open>
  \<^verbatim>\<open>encodeURIComponent\<close> on a string held as UTF-8 bytes: letters, digits and
  \<^verbatim>\<open>- _ . ! ~ * ' ( )\<close> stay, every other byte becomes \<^verbatim>\<open>%XX\<close>.
\<close>

definition is_alpha :: "char \<Rightarrow> bool" where
  "is_alpha c =
     ((97 \<le> (of_char c :: nat) \<and> (of_char c :: nat) \<le> 122)
      \<or> (65 \<le> (of_char c :: nat) \<and> (of_char c :: nat) \<le> 90))"

definition uri_unreserved :: "char \<Rightarrow> bool" where
  "uri_unreserved c = (is_alpha c \<or> is_digit c \<or> c \<in> set ''-_.!~*()'' \<or> c = sq)"

definition hex_digit :: "nat \<Rightarrow> char" where
  "hex_digit n = (if n < 10 then char_of (48 + n) else char_of (55 + n))"

definition encodeURIComponent :: "string \<Rightarrow> string" where
  "encodeURIComponent s =
     concat (map (\<lambda>c. if uri_unreserved c then [c]
                       else [CHR ''%'', hex_digit (of_char c div 16), hex_digit (of_char c mod 16)]) s)"

text \<open>\<^verbatim>\<open>name.replace(/'/g, "'\\''")\<close>: each single quote becomes the four characters
  quote, backslash, quote, quote.\<close>

fun replace_quotes :: "string \<Rightarrow> string" where
  "replace_quotes [] = []"
| "replace_quotes (c # cs) =
     (if c = sq then [sq, backslash, sq, sq] @ replace_quotes cs else c # replace_quotes cs)"

subsection \<open>Effects\<close>

text \<open>
  The lines the program prints, by the template they come from; the numbers and names
  interpolated into a line are the arguments of its constructor.
\<close>

datatype message =
    Initialized
  | SearchingCatalog string
  | PlayingCompletionSound
  | StartingPlaylist string
  | PausingMusic
  | ResumingMusic
  | StoppingMusic
  | MutingSystem
  | RestoringVolume jsnum
  | OpeningYouTube
  | AllCyclesComplete
  | StartingWork int int int
  | StartingBreak int int int
  | RunningSystemMute
  | OriginalVolumeDetected jsnum
  | CouldNotGetVolume
  | ErrorCheckingPlaylist
  | PlaylistNotFound string
  | AddSearchFlagHint

text \<open>
  \<open>ConsoleLog\<close> and \<open>ConsoleError\<close> are the two console streams, \<open>LogStatus\<close> is a
  line printed through \<^verbatim>\<open>logStatus\<close> (a console line behind a wall-clock stamp, which
  is not modelled), \<open>RunCommand\<close> is a call of \<^verbatim>\<open>runCommand\<close> with its argument vector.
\<close>

datatype action =
    ConsoleLog message
  | LogStatus message
  | ConsoleError message
  | RunCommand "string list"

text \<open>
  What the operating system answers to the two commands whose result the program awaits:
  the promise of \<^verbatim>\<open>runCommand\<close> is rejected (\<open>Throws\<close>) or resolves with the standard
  output of the command. The exit status is returned by \<^verbatim>\<open>runCommand\<close> and read by no
  caller.
\<close>

datatype cmd_result = Throws | Completed string

record env =
  volume_query :: cmd_result
  playlist_query :: "string \<Rightarrow> cmd_result"

text \<open>The functions passed to \<^verbatim>\<open>setTimeout\<close>, each with the variables it closes over.\<close>

datatype callback =
    RunCycleCb int
  | WorkIntervalEnd int
  | RunFinalActionsCb
  | ShuffleRepeatCb
  | SoundResume nat

type_synonym registration = "int \<times> callback"

text \<open>
  \<^verbatim>\<open>executeAppleScript\<close> starts the command and does not wait; a rejection would print
  one more console line later and changes nothing in the control flow.
\<close>

definition executeAppleScript :: "string \<Rightarrow> action list" where
  "executeAppleScript script = [RunCommand [''osascript'', ''-e'', script]]"

definition logStatus :: "message \<Rightarrow> action list" where
  "logStatus m = [LogStatus m]"

definition exists_script :: "string \<Rightarrow> string" where
  \<open>exists_script sanitizedName =
     ''tell application "Music" to exists (playlist named "'' @ sanitizedName @ ''")''\<close>

definition playlistExists :: "env \<Rightarrow> string \<Rightarrow> bool \<times> action list" where
  "playlistExists e name =
     (let sanitizedName = replace_quotes name;
          script = exists_script sanitizedName
      in case playlist_query e script of
           Completed stdout \<Rightarrow> (trim stdout = ''true'', [RunCommand [''osascript'', ''-e'', script]])
         | Throws \<Rightarrow>
             (False, [RunCommand [''osascript'', ''-e'', script], ConsoleError ErrorCheckingPlaylist]))"

definition searchAndPlayMusic :: "string \<Rightarrow> action list" where
  "searchAndPlayMusic searchTerm =
     (let encodedTerm = encodeURIComponent searchTerm;
          searchUrl = ''music://music.apple.com/search?term='' @ encodedTerm
      in logStatus (SearchingCatalog searchTerm) @ [RunCommand [''open'', searchUrl]])"

definition soundPath :: string where
  "soundPath = ''/System/Library/Sounds/Hero.aiff''"

text \<open>
  The loop of \<^verbatim>\<open>playCompletionSound\<close> from its test \<^verbatim>\<open>i < 5\<close>: it starts the sound and
  suspends on a 350 ms timer, whose callback \<open>SoundResume i\<close> increments \<open>i\<close> and comes
  back to the test.
\<close>

definition sound_loop :: "nat \<Rightarrow> action list \<times> registration list" where
  "sound_loop i =
     (if i < 5 then ([RunCommand [''afplay'', soundPath]], [(350, SoundResume i)]) else ([], []))"

definition playCompletionSound :: "action list \<times> registration list" where
  "playCompletionSound =
     (logStatus PlayingCompletionSound @ fst (sound_loop 0), snd (sound_loop 0))"

definition play_script :: "string \<Rightarrow> string" where
  \<open>play_script sanitizedName =
     ''tell application "Music" to play playlist "'' @ sanitizedName @ ''"''\<close>

definition shuffle_repeat_script :: string where
  \<open>shuffle_repeat_script =
     [newline] @ ''      tell application "Music"'' @ [newline]
     @ ''          set shuffle enabled to false'' @ [newline]
     @ ''          set repeat mode to all'' @ [newline]
     @ ''      end tell'' @ [newline] @ ''    ''\<close>

definition playPlaylist :: "string \<Rightarrow> action list \<times> registration list" where
  "playPlaylist name =
     (let sanitizedName = replace_quotes name
      in (logStatus (StartingPlaylist sanitizedName) @ executeAppleScript (play_script sanitizedName),
          [(500, ShuffleRepeatCb)]))"

definition pauseMusic :: "action list" where
  \<open>pauseMusic = logStatus PausingMusic @ executeAppleScript ''tell application "Music" to pause''\<close>

definition resumeMusic :: "action list" where
  \<open>resumeMusic = logStatus ResumingMusic @ executeAppleScript ''tell application "Music" to play''\<close>

definition stopMusic :: "action list" where
  \<open>stopMusic = logStatus StoppingMusic @ executeAppleScript ''tell application "Music" to stop''\<close>

definition setVolume :: "jsnum \<Rightarrow> action list" where
  "setVolume level = executeAppleScript (''set volume output volume '' @ toString level)"

definition muteSystem :: "action list" where
  "muteSystem = logStatus MutingSystem @ setVolume (Num 0)"

definition restoreSystemVolume :: "globals \<Rightarrow> action list" where
  "restoreSystemVolume g =
     logStatus (RestoringVolume (originalVolume g)) @ setVolume (originalVolume g)"

definition playYouTubeVideo :: "string \<Rightarrow> action list" where
  "playYouTubeVideo url = logStatus OpeningYouTube @ [RunCommand [''open'', url]]"

definition volume_script :: string where
  "volume_script = ''output volume of (get volume settings)''"

definition getVolume :: "env \<Rightarrow> jsnum \<times> action list" where
  "getVolume e =
     (case volume_query e of
        Completed stdout \<Rightarrow>
          (parseInt (trim stdout), [RunCommand [''osascript'', ''-e'', volume_script]])
      | Throws \<Rightarrow>
          (Num 50, [RunCommand [''osascript'', ''-e'', volume_script], ConsoleError CouldNotGetVolume]))"

subsection \<open>Timer handlers\<close>

definition runFinalActions :: "globals \<Rightarrow> action list \<times> registration list" where
  "runFinalActions g =
     (logStatus AllCyclesComplete
        @ (if operatingMode g = Music then stopMusic else restoreSystemVolume g)
        @ fst playCompletionSound,
      snd playCompletionSound)"

text \<open>The arrow function that \<^verbatim>\<open>runCycle\<close> hands to \<^verbatim>\<open>setTimeout\<close>.\<close>

definition work_interval_end :: "globals \<Rightarrow> flags \<Rightarrow> int \<Rightarrow> action list \<times> registration list" where
  "work_interval_end g f currentCycle =
     (let isLastCycle = (currentCycle = interval f)
      in if isLastCycle \<and> \<not> lastBreak f then runFinalActions g
         else (logStatus (StartingBreak (break f) currentCycle (interval f))
                 @ (if operatingMode g = Music then pauseMusic else muteSystem),
               []))"

definition runCycle :: "globals \<Rightarrow> flags \<Rightarrow> int \<Rightarrow> action list \<times> registration list" where
  "runCycle g f currentCycle =
     ((if operatingMode g = Music then resumeMusic else restoreSystemVolume g)
        @ logStatus (StartingWork (work f) currentCycle (interval f)),
      [(WORK_INTERVAL_MS f, WorkIntervalEnd currentCycle)])"

text \<open>What a callback does when its timer fires: its actions and its registrations.\<close>

fun fire :: "globals \<Rightarrow> flags \<Rightarrow> callback \<Rightarrow> action list \<times> registration list" where
  "fire g f (RunCycleCb k) = runCycle g f k"
| "fire g f (WorkIntervalEnd k) = work_interval_end g f k"
| "fire g f RunFinalActionsCb = runFinalActions g"
| "fire g f ShuffleRepeatCb = (executeAppleScript shuffle_repeat_script, [])"
| "fire g f (SoundResume i) = sound_loop (Suc i)"

subsection \<open>The event loop\<close>

text \<open>
  Pending timers, each with the time at which it fires, earliest first; timers of the
  same time stay in the order of their registration. \<^verbatim>\<open>setTimeout\<close> at time \<open>now\<close>
  enters the callback at \<open>now + delay\<close>, a negative delay counting as 0.
\<close>

type_synonym timer = "int \<times> callback"

fun insert_timer :: "int \<Rightarrow> callback \<Rightarrow> timer list \<Rightarrow> timer list" where
  "insert_timer t cb [] = [(t, cb)]"
| "insert_timer t cb ((t', cb') # q) =
     (if t' \<le> t then (t', cb') # insert_timer t cb q else (t, cb) # (t', cb') # q)"

definition setTimeout :: "int \<Rightarrow> callback \<Rightarrow> int \<Rightarrow> timer list \<Rightarrow> timer list" where
  "setTimeout now cb delay q = insert_timer (now + max 0 delay) cb q"

fun register :: "int \<Rightarrow> registration list \<Rightarrow> timer list \<Rightarrow> timer list" where
  "register now [] q = q"
| "register now ((delay, cb) # rs) q = register now rs (setTimeout now cb delay q)"

text \<open>The measure under which the event loop terminates: how much a callback can still register.\<close>

fun weight :: "callback \<Rightarrow> nat" where
  "weight (RunCycleCb k) = 9"
| "weight (WorkIntervalEnd k) = 8"
| "weight RunFinalActionsCb = 7"
| "weight ShuffleRepeatCb = 1"
| "weight (SoundResume i) = Suc (5 - i)"

definition pending_weight :: "timer list \<Rightarrow> nat" where
  "pending_weight q = sum_list (map (\<lambda>(t, cb). weight cb) q)"

definition registered_weight :: "registration list \<Rightarrow> nat" where
  "registered_weight rs = sum_list (map (\<lambda>(d, cb). weight cb) rs)"

lemma pending_weight_insert:
  "pending_weight (insert_timer t cb q) = weight cb + pending_weight q"
  by (induction q) (auto simp: pending_weight_def)

lemma pending_weight_register:
  "pending_weight (register now rs q) = registered_weight rs + pending_weight q"
  by (induction rs arbitrary: q)
     (auto simp: registered_weight_def setTimeout_def pending_weight_insert)

lemma fire_weight: "registered_weight (snd (fire g f cb)) < weight cb"
  by (cases cb)
     (auto simp: registered_weight_def runCycle_def work_interval_end_def runFinalActions_def
        playCompletionSound_def sound_loop_def Let_def)

function run :: "globals \<Rightarrow> flags \<Rightarrow> timer list \<Rightarrow> (int \<times> action) list" where
  "run g f [] = []"
| "run g f ((t, cb) # q) =
     map (Pair t) (fst (fire g f cb)) @ run g f (register t (snd (fire g f cb)) q)"
  by pat_completeness auto
termination
proof (relation "measure (\<lambda>(g, f, q). pending_weight q)")
  show "wf (measure (\<lambda>(g, f, q). pending_weight q))"
    by simp
next
  fix g :: globals and f :: flags and t :: int and cb :: callback and q :: "timer list"
  have "pending_weight (register t (snd (fire g f cb)) q) < weight cb + pending_weight q"
    using fire_weight [of g f cb] by (simp add: pending_weight_register)
  then show "((g, f, register t (snd (fire g f cb)) q), (g, f, (t, cb) # q))
               \<in> measure (\<lambda>(g, f, q). pending_weight q)"
    by (simp add: pending_weight_def)
qed

declare run.simps [simp del]

subsection \<open>Start-up: \<^verbatim>\<open>main\<close>\<close>

text \<open>
  The result of \<^verbatim>\<open>main\<close>: the exit status if \<^verbatim>\<open>Deno.exit\<close> was called, the actions
  in order, the module-level variables, and the calls of \<^verbatim>\<open>setTimeout\<close> made before it
  returns, in order (delay and callback).
\<close>

record startup =
  exit_status :: "int option"
  out :: "action list"
  glob :: globals
  registered :: "registration list"

text \<open>The loop \<^verbatim>\<open>for (let i = 0; i < TOTAL_CYCLES; i++)\<close>.\<close>

function schedule_cycles :: "flags \<Rightarrow> int \<Rightarrow> registration list \<Rightarrow> registration list" where
  "schedule_cycles f i rs =
     (if i < interval f
      then schedule_cycles f (i + 1) (rs @ [(i * CYCLE_DURATION_MS f, RunCycleCb (i + 1))])
      else rs)"
  by pat_completeness auto
termination
  by (relation "measure (\<lambda>(f, i, rs). nat (interval f - i))") auto

declare schedule_cycles.simps [simp del]

text \<open>The end of \<^verbatim>\<open>main\<close>, from the loop on; \<open>rs\<close> is what was registered before.\<close>

definition start_timers :: "flags \<Rightarrow> registration list \<Rightarrow> registration list" where
  "start_timers f rs =
     (let rs1 = schedule_cycles f 0 rs
      in if lastBreak f
         then (let totalProgramDuration = interval f * CYCLE_DURATION_MS f
               in rs1 @ [(totalProgramDuration, RunFinalActionsCb)])
         else rs1)"

definition start_youtube :: "flags \<Rightarrow> env \<Rightarrow> string \<Rightarrow> startup" where
  "start_youtube f e youtubeUrl =
     (let (v, acts) = getVolume e;
          g = initial_globals\<lparr>operatingMode := YouTube, originalVolume := v\<rparr>
      in \<lparr>exit_status = None,
          out = [ConsoleLog Initialized] @ playYouTubeVideo youtubeUrl @ acts
                  @ logStatus (OriginalVolumeDetected v),
          glob = g,
          registered = start_timers f []\<rparr>)"

definition start_music :: "flags \<Rightarrow> env \<Rightarrow> string \<Rightarrow> startup" where
  "start_music f e playlistName =
     (let g = initial_globals\<lparr>operatingMode := Music\<rparr>;
          (exists, acts) = playlistExists e playlistName
      in if exists
         then \<lparr>exit_status = None,
               out = [ConsoleLog Initialized] @ acts @ fst (playPlaylist playlistName),
               glob = g,
               registered = start_timers f (snd (playPlaylist playlistName))\<rparr>
         else if search f
         then \<lparr>exit_status = None,
               out = [ConsoleLog Initialized] @ acts @ searchAndPlayMusic playlistName,
               glob = g,
               registered = start_timers f []\<rparr>
         else \<lparr>exit_status = Some 1,
               out = [ConsoleLog Initialized] @ acts
                       @ [ConsoleError (PlaylistNotFound playlistName), ConsoleError AddSearchFlagHint],
               glob = g,
               registered = []\<rparr>)"

definition start_system :: "flags \<Rightarrow> env \<Rightarrow> startup" where
  "start_system f e =
     (let (v, acts) = getVolume e;
          g = initial_globals\<lparr>operatingMode := System, originalVolume := v\<rparr>
      in \<lparr>exit_status = None,
          out = [ConsoleLog Initialized] @ logStatus RunningSystemMute @ acts
                  @ logStatus (OriginalVolumeDetected v),
          glob = g,
          registered = start_timers f []\<rparr>)"

text \<open>A string or undefined in a condition: true for a string that is not empty.\<close>

fun truthy :: "string option \<Rightarrow> bool" where
  "truthy None = False"
| "truthy (Some s) = (s \<noteq> [])"

definition main :: "flags \<Rightarrow> env \<Rightarrow> startup" where
  "main f e =
     (let youtubeUrl = positional f;
          playlistName = playlist f
      in if truthy youtubeUrl \<and> prefix ''http'' (the youtubeUrl)
         then start_youtube f e (the youtubeUrl)
         else if truthy playlistName then start_music f e (the playlistName)
         else start_system f e)"

text \<open>
  The whole session after start-up: the timers of \<^verbatim>\<open>main\<close> enter the queue at time 0,
  and the event loop runs until no timer is pending.
\<close>

definition session :: "flags \<Rightarrow> env \<Rightarrow> (int \<times> action) list" where
  "session f e =
     (let s = main f e
      in if exit_status s = None then run (glob s) f (register 0 (registered s) []) else [])"

section \<open>Properties\<close>

subsection \<open>Sample inputs\<close>

text \<open>
  The flags of a run without arguments and two variations of them, and four ways the
  operating system may answer: a volume of 37 and no such playlist; a volume of 37 and
  the playlist found; every command rejected; every command completing with no output.
\<close>

definition default_flags :: flags where
  "default_flags = \<lparr>work = 25, break = 5, interval = 4, playlist = None, search = False,
                     lastBreak = False, positional = None\<rparr>"

definition quiet_env :: env where
  "quiet_env = \<lparr>volume_query = Completed ''37'', playlist_query = (\<lambda>script. Completed ''false'')\<rparr>"


definition silent_env :: env where
  "silent_env = \<lparr>volume_query = Completed [], playlist_query = (\<lambda>script. Completed [])\<rparr>"

definition playlist_flags :: flags where
  "playlist_flags = default_flags\<lparr>playlist := Some ''Deep Focus''\<rparr>"

definition found_env :: env where
  "found_env = \<lparr>volume_query = Completed ''37'', playlist_query = (\<lambda>script. Completed ''true'')\<rparr>"

definition last_break_flags :: flags where
  "last_break_flags = default_flags\<lparr>lastBreak := True\<rparr>"

text \<open>
  Reading the text interpolated between the double quotes of a script: a backslash takes
  the next character with it, and a double quote outside such a pair closes the string
  literal before the quote that the template puts after the name.
\<close>

fun closes_early :: "string \<Rightarrow> bool" where
  "closes_early [] = False"
| "closes_early [c] = (c = dq)"
| "closes_early (c # d # cs) =
     (if c = dq then True else if c = backslash then closes_early cs else closes_early (d # cs))"

definition quoted_name :: string where
  "quoted_name = ''Ben'' @ [sq] @ ''s '' @ [dq] @ ''Focus'' @ [dq]"

subsection \<open>Volume commands\<close>

text \<open>
  The commands through which the program touches the system volume: the script of
  \<^verbatim>\<open>setVolume\<close>, whatever the level, and the script of \<^verbatim>\<open>getVolume\<close>.
\<close>

fun volume_command :: "string list \<Rightarrow> bool" where
  "volume_command [c, opt, script] =
     (c = ''osascript'' \<and> (prefix ''set volume output volume '' script \<or> script = volume_script))"
| "volume_command argv = False"

fun is_volume_action :: "action \<Rightarrow> bool" where
  "is_volume_action (RunCommand argv) = volume_command argv"
| "is_volume_action a = False"

subsection \<open>Events of the schedule\<close>

text \<open>
  The three events of the schedule, recognised in the trace by the status line that
  only their handler prints: the start of work interval \<open>k\<close>, the start of break \<open>k\<close>,
  and the completion (\<^verbatim>\<open>runFinalActions\<close>). \<open>timeline\<close> keeps the events of a trace,
  each with its time.
\<close>

datatype event = WorkStart int | BreakStart int | Completion

fun event_of :: "action \<Rightarrow> event option" where
  "event_of (LogStatus (StartingWork w k n)) = Some (WorkStart k)"
| "event_of (LogStatus (StartingBreak b k n)) = Some (BreakStart k)"
| "event_of (LogStatus AllCyclesComplete) = Some Completion"
| "event_of a = None"

fun timeline :: "(int \<times> action) list \<Rightarrow> (int \<times> event) list" where
  "timeline [] = []"
| "timeline ((t, a) # tr) =
     (case event_of a of Some ev \<Rightarrow> (t, ev) # timeline tr | None \<Rightarrow> timeline tr)"

fun work_starts :: "(int \<times> event) list \<Rightarrow> (int \<times> int) list" where
  "work_starts [] = []"
| "work_starts ((t, WorkStart k) # es) = (t, k) # work_starts es"
| "work_starts (e # es) = work_starts es"

fun break_starts :: "(int \<times> event) list \<Rightarrow> (int \<times> int) list" where
  "break_starts [] = []"
| "break_starts ((t, BreakStart k) # es) = (t, k) # break_starts es"
| "break_starts (e # es) = break_starts es"

fun completions :: "(int \<times> event) list \<Rightarrow> int list" where
  "completions [] = []"
| "completions ((t, Completion) # es) = t # completions es"
| "completions (e # es) = completions es"

text \<open>
  Two notions for the proofs. \<open>cycle_queue f i\<close> is what \<^verbatim>\<open>main\<close> has registered for
  the cycles after the first \<open>i\<close>, with the completion timer of \<^verbatim>\<open>--last-break\<close>;
  \<open>expected_from f i\<close> lists the events that are due from the start of cycle \<open>i + 1\<close> on.
\<close>

definition cycle_queue :: "flags \<Rightarrow> int \<Rightarrow> timer list" where
  "cycle_queue f i =
     map (\<lambda>j. (j * CYCLE_DURATION_MS f, RunCycleCb (j + 1))) [i..interval f - 1]
     @ (if lastBreak f then [(interval f * CYCLE_DURATION_MS f, RunFinalActionsCb)] else [])"

function expected_from :: "flags \<Rightarrow> int \<Rightarrow> (int \<times> event) list" where
  "expected_from f i =
     (if i < interval f
      then (i * CYCLE_DURATION_MS f, WorkStart (i + 1))
           # (if i + 1 = interval f \<and> \<not> lastBreak f
              then [(i * CYCLE_DURATION_MS f + WORK_INTERVAL_MS f, Completion)]
              else (i * CYCLE_DURATION_MS f + WORK_INTERVAL_MS f, BreakStart (i + 1))
                   # expected_from f (i + 1))
      else if lastBreak f then [(interval f * CYCLE_DURATION_MS f, Completion)] else [])"
  by pat_completeness auto
termination
  by (relation "measure (\<lambda>(f, i). nat (interval f - i))") auto

declare expected_from.simps [simp del]

section \<open>Theorems\<close>

subsection \<open>The events of one handler\<close>

lemma timeline_append: "timeline (xs @ ys) = timeline xs @ timeline ys"
  by (induction xs) (auto split: option.splits)

lemma timeline_runCycle: "timeline (map (Pair t) (fst (runCycle g f k))) = [(t, WorkStart k)]"
  by (simp add: runCycle_def resumeMusic_def restoreSystemVolume_def setVolume_def logStatus_def
      executeAppleScript_def)

lemma timeline_sound_loop: "timeline (map (Pair t) (fst (sound_loop i))) = []"
  by (simp add: sound_loop_def)

lemma timeline_runFinalActions:
  "timeline (map (Pair t) (fst (runFinalActions g))) = [(t, Completion)]"
  by (simp add: runFinalActions_def stopMusic_def restoreSystemVolume_def setVolume_def
      logStatus_def executeAppleScript_def playCompletionSound_def sound_loop_def)

lemma timeline_break:
  "timeline (map (Pair t) (logStatus (StartingBreak b k n)
      @ (if operatingMode g = Music then pauseMusic else muteSystem))) = [(t, BreakStart k)]"
  by (simp add: pauseMusic_def muteSystem_def setVolume_def logStatus_def executeAppleScript_def)

subsection \<open>The event loop on the queue of a schedule\<close>

lemma run_sound: "timeline (run g f [(t, SoundResume i)]) = []"
proof (induction "5 - i" arbitrary: i t)
  case 0
  then show ?case
    by (simp add: run.simps sound_loop_def)
next
  case (Suc m)
  show ?case
  proof (cases "Suc i < 5")
    case True
    have "run g f [(t, SoundResume i)]
            = map (Pair t) (fst (sound_loop (Suc i))) @ run g f [(t + 350, SoundResume (Suc i))]"
      using True by (subst run.simps) (simp add: sound_loop_def setTimeout_def)
    moreover have "timeline (run g f [(t + 350, SoundResume (Suc i))]) = []"
      using Suc.hyps(1) [of "Suc i" "t + 350"] Suc.hyps(2) by simp
    ultimately show ?thesis
      by (simp add: timeline_append timeline_sound_loop)
  next
    case False
    then show ?thesis
      by (simp add: run.simps sound_loop_def)
  qed
qed

lemma snd_runFinalActions: "snd (runFinalActions g) = [(350, SoundResume 0)]"
  by (simp add: runFinalActions_def playCompletionSound_def sound_loop_def)

lemma run_final: "timeline (run g f [(t, RunFinalActionsCb)]) = [(t, Completion)]"
  by (subst run.simps)
     (simp add: timeline_append timeline_runFinalActions snd_runFinalActions setTimeout_def
        run_sound)

lemma run_work_end_last:
  assumes "\<not> lastBreak f"
  shows "timeline (run g f [(t, WorkIntervalEnd (interval f))]) = [(t, Completion)]"
  using assms
  by (subst run.simps)
     (simp add: work_interval_end_def timeline_append timeline_runFinalActions
        snd_runFinalActions setTimeout_def run_sound)

lemma run_work_end_break:
  assumes "k \<noteq> interval f \<or> lastBreak f"
  shows "timeline (run g f ((t, WorkIntervalEnd k) # q)) = (t, BreakStart k) # timeline (run g f q)"
proof -
  from assms have "fire g f (WorkIntervalEnd k)
      = (logStatus (StartingBreak (break f) k (interval f))
           @ (if operatingMode g = Music then pauseMusic else muteSystem), [])"
    by (auto simp: work_interval_end_def)
  then show ?thesis
    using timeline_break [of t "break f" k "interval f" g]
    by (subst run.simps) (simp add: timeline_append del: fire.simps)
qed

lemma run_cycle:
  assumes "0 \<le> WORK_INTERVAL_MS f"
  shows "timeline (run g f ((t, RunCycleCb k) # q))
           = (t, WorkStart k)
             # timeline (run g f (insert_timer (t + WORK_INTERVAL_MS f) (WorkIntervalEnd k) q))"
proof -
  have "snd (fire g f (RunCycleCb k)) = [(WORK_INTERVAL_MS f, WorkIntervalEnd k)]"
    by (simp add: runCycle_def)
  then have "register t (snd (fire g f (RunCycleCb k))) q
               = insert_timer (t + WORK_INTERVAL_MS f) (WorkIntervalEnd k) q"
    using assms by (simp add: setTimeout_def)
  then show ?thesis
    using timeline_runCycle [of t g f k] by (subst run.simps) (simp add: timeline_append)
qed

lemma run_shuffle:
  "timeline (run g f ((t, ShuffleRepeatCb) # q)) = timeline (run g f q)"
  by (subst run.simps) (simp add: timeline_append executeAppleScript_def)

lemma insert_timer_front: "q = [] \<or> t < fst (hd q) \<Longrightarrow> insert_timer t cb q = (t, cb) # q"
  by (cases q) auto

lemma insert_timer_end: "\<forall>t' \<in> set (map fst q). t' \<le> t \<Longrightarrow> insert_timer t cb q = q @ [(t, cb)]"
  by (induction q) auto

lemma cycle_queue_step:
  "i < interval f \<Longrightarrow>
     cycle_queue f i = (i * CYCLE_DURATION_MS f, RunCycleCb (i + 1)) # cycle_queue f (i + 1)"
  by (simp add: cycle_queue_def upto_rec1 [of i "interval f - 1"])

lemma cycle_queue_end:
  "cycle_queue f (interval f)
     = (if lastBreak f then [(interval f * CYCLE_DURATION_MS f, RunFinalActionsCb)] else [])"
  by (simp add: cycle_queue_def)

lemma cycle_queue_hd:
  assumes "i \<le> interval f"
  shows "cycle_queue f i = [] \<or> fst (hd (cycle_queue f i)) = i * CYCLE_DURATION_MS f"
proof (cases "i < interval f")
  case True
  then show ?thesis by (simp add: cycle_queue_step)
next
  case False
  with assms have "i = interval f" by simp
  then show ?thesis by (simp add: cycle_queue_end)
qed

lemma valid_ms:
  assumes "0 < work f" and "0 < break f"
  shows "0 < WORK_INTERVAL_MS f" and "WORK_INTERVAL_MS f < CYCLE_DURATION_MS f"
    and "500 \<le> WORK_INTERVAL_MS f" and "0 < CYCLE_DURATION_MS f"
  using assms by (simp_all add: WORK_INTERVAL_MS_def BREAK_INTERVAL_MS_def CYCLE_DURATION_MS_def)

lemma run_cycle_queue:
  assumes "0 < work f" and "0 < break f"
  shows "i \<le> interval f \<Longrightarrow> timeline (run g f (cycle_queue f i)) = expected_from f i"
proof (induction "nat (interval f - i)" arbitrary: i)
  case 0
  then have i: "i = interval f" by simp
  show ?case
    unfolding i by (subst expected_from.simps) (simp add: cycle_queue_end run_final run.simps(1))
next
  case (Suc m)
  then have lt: "i < interval f" by simp
  let ?C = "CYCLE_DURATION_MS f" and ?W = "WORK_INTERVAL_MS f"
  have W: "0 \<le> ?W" "?W < ?C"
    using valid_ms [OF assms] by simp_all
  have next_cd: "(i + 1) * ?C = i * ?C + ?C"
    by (simp add: algebra_simps)
  have "cycle_queue f (i + 1) = [] \<or> fst (hd (cycle_queue f (i + 1))) = (i + 1) * ?C"
    using lt cycle_queue_hd [of "i + 1" f] by simp
  then have front: "insert_timer (i * ?C + ?W) (WorkIntervalEnd (i + 1)) (cycle_queue f (i + 1))
                = (i * ?C + ?W, WorkIntervalEnd (i + 1)) # cycle_queue f (i + 1)"
    using W next_cd by (intro insert_timer_front) auto
  have start: "timeline (run g f (cycle_queue f i))
          = (i * ?C, WorkStart (i + 1))
            # timeline (run g f ((i * ?C + ?W, WorkIntervalEnd (i + 1)) # cycle_queue f (i + 1)))"
    using run_cycle [OF W(1), of g "i * ?C" "i + 1" "cycle_queue f (i + 1)"] front lt
    by (simp add: cycle_queue_step)
  show ?case
  proof (cases "i + 1 = interval f \<and> \<not> lastBreak f")
    case True
    then have "cycle_queue f (i + 1) = []"
      by (simp add: cycle_queue_end)
    then show ?thesis
      using start True lt run_work_end_last [of f g "i * ?C + ?W"]
      by (subst expected_from.simps) simp
  next
    case False
    then have br: "i + 1 \<noteq> interval f \<or> lastBreak f" by blast
    have ih: "timeline (run g f (cycle_queue f (i + 1))) = expected_from f (i + 1)"
      using Suc.hyps(1) [of "i + 1"] Suc.hyps(2) lt by simp
    show ?thesis
      using start False lt ih run_work_end_break [OF br, of g "i * ?C + ?W" "cycle_queue f (i + 1)"]
      by (subst expected_from.simps) simp
  qed
qed

subsection \<open>From the registrations of \<^verbatim>\<open>main\<close> to the timeline\<close>

lemma schedule_cycles_closed:
  "schedule_cycles f i rs
     = rs @ map (\<lambda>j. (j * CYCLE_DURATION_MS f, RunCycleCb (j + 1))) [i..interval f - 1]"
proof (induction f i rs rule: schedule_cycles.induct)
  case (1 f i rs)
  show ?case
  proof (cases "i < interval f")
    case True
    with "1" show ?thesis
      by (subst schedule_cycles.simps) (simp add: upto_rec1 [of i "interval f - 1"])
  next
    case False
    then show ?thesis
      by (subst schedule_cycles.simps) simp
  qed
qed

lemma start_timers_closed: "start_timers f rs = rs @ cycle_queue f 0"
  by (simp add: start_timers_def Let_def schedule_cycles_closed cycle_queue_def)

lemma register_append: "register now (rs @ rs') q = register now rs' (register now rs q)"
  by (induction rs arbitrary: q) auto

lemma register_cycle_queue:
  assumes "0 \<le> CYCLE_DURATION_MS f"
  shows "0 \<le> i \<Longrightarrow> i \<le> interval f \<Longrightarrow> \<forall>t \<in> set (map fst q). t \<le> i * CYCLE_DURATION_MS f
           \<Longrightarrow> register 0 (cycle_queue f i) q = q @ cycle_queue f i"
proof (induction "nat (interval f - i)" arbitrary: i q)
  case 0
  then have i: "i = interval f" by simp
  have "0 \<le> interval f * CYCLE_DURATION_MS f"
    using "0.prems"(1) i assms by simp
  then show ?case
    using "0.prems"(3) unfolding i
    by (simp add: cycle_queue_end setTimeout_def insert_timer_end)
next
  case (Suc m)
  then have lt: "i < interval f" by simp
  let ?C = "CYCLE_DURATION_MS f"
  have nn: "0 \<le> i * ?C"
    using Suc.prems(1) assms by simp
  have ins: "insert_timer (i * ?C) (RunCycleCb (i + 1)) q = q @ [(i * ?C, RunCycleCb (i + 1))]"
    using Suc.prems(3) by (intro insert_timer_end) simp
  have "\<forall>t \<in> set (map fst (q @ [(i * ?C, RunCycleCb (i + 1))])). t \<le> (i + 1) * ?C"
    using Suc.prems(3) assms by (auto simp: algebra_simps)
  then have "register 0 (cycle_queue f (i + 1)) (q @ [(i * ?C, RunCycleCb (i + 1))])
               = (q @ [(i * ?C, RunCycleCb (i + 1))]) @ cycle_queue f (i + 1)"
    using Suc.hyps(1) [of "i + 1"] Suc.hyps(2) Suc.prems(1) lt by simp
  then show ?case
    using lt nn ins by (simp add: cycle_queue_step setTimeout_def)
qed

lemma main_registered:
  assumes "exit_status (main f e) = None"
  shows "registered (main f e) = cycle_queue f 0
       \<or> registered (main f e) = (500, ShuffleRepeatCb) # cycle_queue f 0"
  using assms
  by (auto simp: main_def initial_globals_def start_youtube_def start_system_def start_music_def
      playPlaylist_def
      start_timers_closed Let_def split: prod.splits if_splits)

lemma expected_from_start:
  "i < interval f \<Longrightarrow>
     expected_from f i
       = (i * CYCLE_DURATION_MS f, WorkStart (i + 1))
         # (if i + 1 = interval f \<and> \<not> lastBreak f
            then [(i * CYCLE_DURATION_MS f + WORK_INTERVAL_MS f, Completion)]
            else (i * CYCLE_DURATION_MS f + WORK_INTERVAL_MS f, BreakStart (i + 1))
                 # expected_from f (i + 1))"
  by (subst expected_from.simps) simp

lemma session_timeline:
  assumes "1 \<le> interval f" and "0 < work f" and "0 < break f"
    and "exit_status (main f e) = None"
  shows "timeline (session f e) = expected_from f 0"
proof -
  let ?C = "CYCLE_DURATION_MS f" and ?W = "WORK_INTERVAL_MS f"
  let ?g = "glob (main f e)"
  note ms = valid_ms [OF assms(2,3)]
  have C: "0 \<le> ?C" using ms by simp
  from main_registered [OF assms(4)] show ?thesis
  proof
    assume r: "registered (main f e) = cycle_queue f 0"
    have "register 0 (cycle_queue f 0) [] = cycle_queue f 0"
      using register_cycle_queue [OF C, of 0 "[]"] assms(1) by simp
    then show ?thesis
      using assms r run_cycle_queue [of f 0 ?g] by (simp add: session_def Let_def)
  next
    assume r: "registered (main f e) = (500, ShuffleRepeatCb) # cycle_queue f 0"
    have step: "cycle_queue f 0 = (0, RunCycleCb 1) # cycle_queue f 1"
      using cycle_queue_step [of 0 f] assms(1) by simp
    have "\<forall>t \<in> set (map fst [(0, RunCycleCb 1), (500, ShuffleRepeatCb)]). t \<le> 1 * ?C"
      using ms by simp
    then have "register 0 (cycle_queue f 1) [(0, RunCycleCb 1), (500, ShuffleRepeatCb)]
                 = [(0, RunCycleCb 1), (500, ShuffleRepeatCb)] @ cycle_queue f 1"
      using register_cycle_queue [OF C, of 1 "[(0, RunCycleCb 1), (500, ShuffleRepeatCb)]"] assms(1)
      by simp
    then have q: "register 0 (registered (main f e)) []
                = (0, RunCycleCb 1) # (500, ShuffleRepeatCb) # cycle_queue f 1"
      unfolding r step by (simp add: setTimeout_def)
    have "cycle_queue f 1 = [] \<or> fst (hd (cycle_queue f 1)) = 1 * ?C"
      using cycle_queue_hd [of 1 f] assms(1) by simp
    then have "insert_timer ?W (WorkIntervalEnd 1) (cycle_queue f 1)
                 = (?W, WorkIntervalEnd 1) # cycle_queue f 1"
      using ms by (intro insert_timer_front) auto
    then have ins: "insert_timer (0 + ?W) (WorkIntervalEnd 1) ((500, ShuffleRepeatCb) # cycle_queue f 1)
                 = (500, ShuffleRepeatCb) # (?W, WorkIntervalEnd 1) # cycle_queue f 1"
      using ms by simp
    have a: "timeline (session f e)
               = (0, WorkStart 1) # timeline (run ?g f ((?W, WorkIntervalEnd 1) # cycle_queue f 1))"
      using assms(4) q ins
        run_cycle [of f ?g 0 1 "(500, ShuffleRepeatCb) # cycle_queue f 1"] ms(1)
      by (simp add: session_def Let_def run_shuffle)
    have b: "timeline (run ?g f (cycle_queue f 0))
               = (0, WorkStart 1) # timeline (run ?g f ((?W, WorkIntervalEnd 1) # cycle_queue f 1))"
    proof -
      have "insert_timer (0 + ?W) (WorkIntervalEnd 1) (cycle_queue f 1)
              = (?W, WorkIntervalEnd 1) # cycle_queue f 1"
        using \<open>insert_timer ?W (WorkIntervalEnd 1) (cycle_queue f 1)
                 = (?W, WorkIntervalEnd 1) # cycle_queue f 1\<close> by simp
      then show ?thesis
        unfolding step using run_cycle [of f ?g 0 1 "cycle_queue f 1"] ms(1) by simp
    qed
    show ?thesis
      using a b assms run_cycle_queue [of f 0 ?g] by simp
  qed
qed

subsection \<open>The timeline in closed form\<close>

lemma work_starts_expected:
  "work_starts (expected_from f i)
     = map (\<lambda>j. (j * CYCLE_DURATION_MS f, j + 1)) [i..interval f - 1]"
proof (induction f i rule: expected_from.induct)
  case (1 f i)
  show ?case
  proof (cases "i < interval f")
    case True
    then show ?thesis
      using "1" by (subst expected_from.simps) (auto simp: upto_rec1 [of i "interval f - 1"])
  next
    case False
    then show ?thesis
      by (subst expected_from.simps) simp
  qed
qed

lemma break_starts_expected:
  "break_starts (expected_from f i)
     = map (\<lambda>j. (j * CYCLE_DURATION_MS f + WORK_INTERVAL_MS f, j + 1))
         [i..interval f - 1 - (if lastBreak f then 0 else 1)]"
proof (induction f i rule: expected_from.induct)
  case (1 f i)
  show ?case
  proof (cases "i < interval f")
    case True
    show ?thesis
    proof (cases "i + 1 = interval f \<and> \<not> lastBreak f")
      case last: True
      then show ?thesis
        using \<open>i < interval f\<close> by (subst expected_from.simps) simp
    next
      case False
      then have "i \<le> interval f - 1 - (if lastBreak f then 0 else 1)"
        using True by auto
      then have "[i..interval f - 1 - (if lastBreak f then 0 else 1)]
                   = i # [i + 1..interval f - 1 - (if lastBreak f then 0 else 1)]"
        by (rule upto_rec1)
      then show ?thesis
        using "1" True False by (subst expected_from.simps) auto
    qed
  next
    case False
    then show ?thesis
      by (subst expected_from.simps) simp
  qed
qed

lemma completions_expected:
  "i \<le> interval f \<Longrightarrow> i < interval f \<or> lastBreak f \<Longrightarrow>
     completions (expected_from f i)
       = [if lastBreak f then interval f * CYCLE_DURATION_MS f
          else (interval f - 1) * CYCLE_DURATION_MS f + WORK_INTERVAL_MS f]"
proof (induction f i rule: expected_from.induct)
  case (1 f i)
  show ?case
  proof (cases "i < interval f")
    case True
    show ?thesis
    proof (cases "i + 1 = interval f \<and> \<not> lastBreak f")
      case last: True
      then have "i = interval f - 1" by simp
      then show ?thesis
        using last by (subst expected_from.simps) simp
    next
      case False
      then have "i + 1 < interval f \<or> lastBreak f"
        using True by auto
      then show ?thesis
        using "1.IH" True False by (subst expected_from.simps) auto
    qed
  next
    case False
    then show ?thesis
      using "1.prems" by (subst expected_from.simps) simp
  qed
qed

lemma expected_increasing:
  assumes "0 < WORK_INTERVAL_MS f" and "WORK_INTERVAL_MS f < CYCLE_DURATION_MS f"
  shows "i \<le> interval f \<Longrightarrow>
           sorted_wrt (<) (map fst (expected_from f i))
         \<and> (\<forall>t \<in> set (map fst (expected_from f i)). i * CYCLE_DURATION_MS f \<le> t)"
proof (induction "nat (interval f - i)" arbitrary: i)
  case 0
  then have "i = interval f" by simp
  then show ?case
    by (subst expected_from.simps, subst (2) expected_from.simps) simp
next
  case (Suc m)
  then have lt: "i < interval f" by simp
  let ?C = "CYCLE_DURATION_MS f" and ?W = "WORK_INTERVAL_MS f"
  have next_cd: "(i + 1) * ?C = i * ?C + ?C"
    by (simp add: algebra_simps)
  show ?case
  proof (cases "i + 1 = interval f \<and> \<not> lastBreak f")
    case True
    then show ?thesis
      using lt assms by (simp add: expected_from_start)
  next
    case False
    have ih: "sorted_wrt (<) (map fst (expected_from f (i + 1)))
            \<and> (\<forall>t \<in> set (map fst (expected_from f (i + 1))). (i + 1) * ?C \<le> t)"
      using Suc.hyps(1) [of "i + 1"] Suc.hyps(2) lt by simp
    then have later: "\<forall>t \<in> set (map fst (expected_from f (i + 1))). i * ?C + ?W < t"
      using assms next_cd by auto
    show ?thesis
      using lt False ih later assms by (simp add: expected_from_start) force
  qed
qed

lemma upto_shift: "map h [i + 1..j + 1] = map (\<lambda>x. h (x + 1)) [i..j]"
proof (induction "nat (j + 1 - i)" arbitrary: i)
  case 0
  then show ?case by simp
next
  case (Suc m)
  then have le: "i \<le> j" by simp
  have "map h [i + 1 + 1..j + 1] = map (\<lambda>x. h (x + 1)) [i + 1..j]"
    using Suc.hyps(1) [of "i + 1"] Suc.hyps(2) by simp
  then show ?case
    using le by (simp add: upto_rec1 [of i j] upto_rec1 [of "i + 1" "j + 1"])
qed

subsection \<open>The schedule\<close>

text \<open>
  C1. For a cycle count of at least 1 and positive work and break durations, in every
  run that reaches the scheduler: the work-start events are exactly those of cycles
  \<open>k = 1, ..., interval\<close>, at \<open>(k - 1) * CYCLE_DURATION_MS\<close>; the break-start events are
  exactly those of cycles \<open>k = 1, ..., interval\<close> (\<open>interval - 1\<close> without \<^verbatim>\<open>lastBreak\<close>), at
  \<open>(k - 1) * CYCLE_DURATION_MS + WORK_INTERVAL_MS\<close>; there is exactly one completion event;
  and the times of all these events, in the order in which they happen, increase strictly.
\<close>

theorem schedule_events:
  assumes "1 \<le> interval f" and "0 < work f" and "0 < break f"
    and "exit_status (main f e) = None"
  shows "work_starts (timeline (session f e))
           = map (\<lambda>k. ((k - 1) * CYCLE_DURATION_MS f, k)) [1..interval f]
       \<and> length (work_starts (timeline (session f e))) = nat (interval f)
       \<and> break_starts (timeline (session f e))
           = map (\<lambda>k. ((k - 1) * CYCLE_DURATION_MS f + WORK_INTERVAL_MS f, k))
               [1..interval f - (if lastBreak f then 0 else 1)]
       \<and> length (break_starts (timeline (session f e)))
           = nat (interval f - (if lastBreak f then 0 else 1))
       \<and> length (completions (timeline (session f e))) = 1
       \<and> sorted_wrt (<) (map fst (timeline (session f e)))"
proof -
  let ?C = "CYCLE_DURATION_MS f" and ?W = "WORK_INTERVAL_MS f"
  let ?m = "interval f - 1 - (if lastBreak f then 0 else 1)"
  have tl: "timeline (session f e) = expected_from f 0"
    using assms by (rule session_timeline)
  have w: "work_starts (timeline (session f e)) = map (\<lambda>k. ((k - 1) * ?C, k)) [1..interval f]"
    using upto_shift [of "\<lambda>k. ((k - 1) * ?C, k)" 0 "interval f - 1"]
    by (simp add: tl work_starts_expected)
  have "break_starts (timeline (session f e)) = map (\<lambda>k. ((k - 1) * ?C + ?W, k)) [0 + 1..?m + 1]"
    unfolding tl break_starts_expected upto_shift by simp
  moreover have "?m + 1 = interval f - (if lastBreak f then 0 else 1)"
    by simp
  ultimately have b: "break_starts (timeline (session f e))
      = map (\<lambda>k. ((k - 1) * ?C + ?W, k)) [1..interval f - (if lastBreak f then 0 else 1)]"
    by simp
  have c: "length (completions (timeline (session f e))) = 1"
    using assms(1) by (simp add: tl completions_expected)
  have s: "sorted_wrt (<) (map fst (timeline (session f e)))"
    using expected_increasing [of f 0] valid_ms [OF assms(2,3)] assms(1) by (simp add: tl)
  have lw: "length (work_starts (timeline (session f e))) = nat (interval f)"
    unfolding w by simp
  have lb: "length (break_starts (timeline (session f e)))
              = nat (interval f - (if lastBreak f then 0 else 1))"
    unfolding b by simp
  from w lw b lb c s show ?thesis
    by blast
qed

theorem schedule_events_witness:
  "work_starts (timeline (session default_flags quiet_env))
     = [(0, 1), (1800000, 2), (3600000, 3), (5400000, 4)]
   \<and> break_starts (timeline (session default_flags quiet_env))
     = [(1500000, 1), (3300000, 2), (5100000, 3)]
   \<and> length (completions (timeline (session default_flags quiet_env))) = 1
   \<and> sorted_wrt (<) (map fst (timeline (session default_flags quiet_env)))"
proof -
  have h: "1 \<le> interval default_flags" "0 < work default_flags" "0 < break default_flags"
    by (simp_all add: default_flags_def)
  have x: "exit_status (main default_flags quiet_env) = None"
    by (simp add: main_def initial_globals_def default_flags_def start_system_def split: prod.splits)
  have w: "map (\<lambda>k. ((k - 1) * CYCLE_DURATION_MS default_flags, k)) [1..interval default_flags]
             = [(0, 1), (1800000, 2), (3600000, 3), (5400000, 4)]"
    by code_simp
  have b: "map (\<lambda>k. ((k - 1) * CYCLE_DURATION_MS default_flags + WORK_INTERVAL_MS default_flags, k))
               [1..interval default_flags - (if lastBreak default_flags then 0 else 1)]
             = [(1500000, 1), (3300000, 2), (5100000, 3)]"
    by code_simp
  from schedule_events [OF h x] w b show ?thesis
    by simp
qed

text \<open>
  C2. Under the same conditions the completion happens exactly once. Without
  \<^verbatim>\<open>lastBreak\<close> it happens at \<open>(interval - 1) * CYCLE_DURATION_MS + WORK_INTERVAL_MS\<close>:
  \<^verbatim>\<open>main\<close> registers no timer for it, the callback that \<^verbatim>\<open>runCycle\<close> of the last cycle
  registers with delay \<open>WORK_INTERVAL_MS\<close> calls \<^verbatim>\<open>runFinalActions\<close> directly, and the last
  cycle has no break-start event. With \<^verbatim>\<open>lastBreak\<close> it happens at
  \<open>interval * CYCLE_DURATION_MS\<close>, through a timer of its own that \<^verbatim>\<open>main\<close> registers,
  and the break of the last cycle starts strictly before.
\<close>

theorem completion_once:
  assumes "1 \<le> interval f" and "0 < work f" and "0 < break f"
    and "exit_status (main f e) = None"
  shows "completions (timeline (session f e))
           = [if lastBreak f then interval f * CYCLE_DURATION_MS f
              else (interval f - 1) * CYCLE_DURATION_MS f + WORK_INTERVAL_MS f]
       \<and> (\<not> lastBreak f \<longrightarrow>
              RunFinalActionsCb \<notin> snd ` set (registered (main f e))
            \<and> snd (fire (glob (main f e)) f (RunCycleCb (interval f)))
                = [(WORK_INTERVAL_MS f, WorkIntervalEnd (interval f))]
            \<and> fire (glob (main f e)) f (WorkIntervalEnd (interval f))
                = runFinalActions (glob (main f e))
            \<and> interval f \<notin> snd ` set (break_starts (timeline (session f e))))
       \<and> (lastBreak f \<longrightarrow>
              (interval f * CYCLE_DURATION_MS f, RunFinalActionsCb) \<in> set (registered (main f e))
            \<and> ((interval f - 1) * CYCLE_DURATION_MS f + WORK_INTERVAL_MS f, interval f)
                \<in> set (break_starts (timeline (session f e)))
            \<and> (interval f - 1) * CYCLE_DURATION_MS f + WORK_INTERVAL_MS f
                < interval f * CYCLE_DURATION_MS f)"
proof -
  let ?C = "CYCLE_DURATION_MS f" and ?W = "WORK_INTERVAL_MS f"
  have tl: "timeline (session f e) = expected_from f 0"
    using assms by (rule session_timeline)
  have c: "completions (timeline (session f e))
             = [if lastBreak f then interval f * ?C else (interval f - 1) * ?C + ?W]"
    using assms(1) by (simp add: tl completions_expected)
  have reg: "registered (main f e) = cycle_queue f 0
           \<or> registered (main f e) = (500, ShuffleRepeatCb) # cycle_queue f 0"
    using assms(4) by (rule main_registered)
  have off: "\<not> lastBreak f \<longrightarrow>
              RunFinalActionsCb \<notin> snd ` set (registered (main f e))
            \<and> snd (fire (glob (main f e)) f (RunCycleCb (interval f)))
                = [(?W, WorkIntervalEnd (interval f))]
            \<and> fire (glob (main f e)) f (WorkIntervalEnd (interval f))
                = runFinalActions (glob (main f e))
            \<and> interval f \<notin> snd ` set (break_starts (timeline (session f e)))"
    using reg
    by (auto simp: cycle_queue_def runCycle_def work_interval_end_def tl break_starts_expected)
  have "(interval f - 1) * ?C + ?C = interval f * ?C"
    by (simp add: algebra_simps)
  then have lt: "(interval f - 1) * ?C + ?W < interval f * ?C"
    using valid_ms(2) [OF assms(2,3)] by simp
  have "((interval f - 1) * ?C + ?W, interval f - 1 + 1)
          \<in> (\<lambda>j. (j * ?C + ?W, j + 1)) ` {0..interval f - 1}"
    using assms(1) by (intro image_eqI [where x = "interval f - 1"]) simp_all
  then have on: "lastBreak f \<longrightarrow>
              (interval f * ?C, RunFinalActionsCb) \<in> set (registered (main f e))
            \<and> ((interval f - 1) * ?C + ?W, interval f) \<in> set (break_starts (timeline (session f e)))
            \<and> (interval f - 1) * ?C + ?W < interval f * ?C"
    using reg lt by (auto simp: cycle_queue_def tl break_starts_expected)
  from c off on show ?thesis
    by blast
qed

theorem completion_once_witness:
  "completions (timeline (session default_flags quiet_env)) = [6900000]
   \<and> RunFinalActionsCb \<notin> snd ` set (registered (main default_flags quiet_env))
   \<and> fire (glob (main default_flags quiet_env)) default_flags (WorkIntervalEnd 4)
       = runFinalActions (glob (main default_flags quiet_env))
   \<and> 4 \<notin> snd ` set (break_starts (timeline (session default_flags quiet_env)))
   \<and> completions (timeline (session last_break_flags quiet_env)) = [7200000]
   \<and> (7200000, RunFinalActionsCb) \<in> set (registered (main last_break_flags quiet_env))
   \<and> (6900000, 4) \<in> set (break_starts (timeline (session last_break_flags quiet_env)))"
proof -
  have h: "1 \<le> interval default_flags" "0 < work default_flags" "0 < break default_flags"
    by (simp_all add: default_flags_def)
  have x: "exit_status (main default_flags quiet_env) = None"
    by (simp add: main_def initial_globals_def default_flags_def start_system_def split: prod.splits)
  have h': "1 \<le> interval last_break_flags" "0 < work last_break_flags" "0 < break last_break_flags"
    by (simp_all add: last_break_flags_def default_flags_def)
  have x': "exit_status (main last_break_flags quiet_env) = None"
    by (simp add: main_def initial_globals_def last_break_flags_def default_flags_def
        start_system_def split: prod.splits)
  have v: "\<not> lastBreak default_flags" "interval default_flags = 4"
    "(interval default_flags - 1) * CYCLE_DURATION_MS default_flags + WORK_INTERVAL_MS default_flags
       = 6900000"
    by (simp_all add: default_flags_def CYCLE_DURATION_MS_def WORK_INTERVAL_MS_def
        BREAK_INTERVAL_MS_def)
  have v': "lastBreak last_break_flags" "interval last_break_flags = 4"
    "interval last_break_flags * CYCLE_DURATION_MS last_break_flags = 7200000"
    "(interval last_break_flags - 1) * CYCLE_DURATION_MS last_break_flags
       + WORK_INTERVAL_MS last_break_flags = 6900000"
    by (simp_all add: last_break_flags_def default_flags_def CYCLE_DURATION_MS_def
        WORK_INTERVAL_MS_def BREAK_INTERVAL_MS_def)
  from completion_once [OF h x] completion_once [OF h' x'] v v' show ?thesis
    by simp
qed

text \<open>
  C3, as stated, fails: with the default flags \<^verbatim>\<open>main\<close> registers the four work-start
  timers and nothing else, and the handler of the first one, when it fires, registers
  a further timer, 1500000 ms later, for the end of the work interval.
\<close>

theorem break_timer_chained_counterexample:
  "registered (main default_flags quiet_env)
     = [(0, RunCycleCb 1), (1800000, RunCycleCb 2), (3600000, RunCycleCb 3), (5400000, RunCycleCb 4)]
   \<and> snd (fire (glob (main default_flags quiet_env)) default_flags (RunCycleCb 1))
     = [(1500000, WorkIntervalEnd 1)]"
proof -
  have "cycle_queue default_flags 0
          = [(0, RunCycleCb 1), (1800000, RunCycleCb 2), (3600000, RunCycleCb 3), (5400000, RunCycleCb 4)]"
    by code_simp
  moreover have "registered (main default_flags quiet_env) = start_timers default_flags []"
    by (simp add: main_def initial_globals_def default_flags_def start_system_def split: prod.splits)
  moreover have "WORK_INTERVAL_MS default_flags = 1500000"
    by (simp add: WORK_INTERVAL_MS_def default_flags_def)
  ultimately show ?thesis
    by (simp add: start_timers_closed runCycle_def)
qed

text \<open>
  C3, amended. Up front, \<^verbatim>\<open>main\<close> registers the work-start timer of every cycle, with
  delay \<open>(k - 1) * CYCLE_DURATION_MS\<close>, and with \<^verbatim>\<open>lastBreak\<close> the completion timer, with
  delay \<open>interval * CYCLE_DURATION_MS\<close> (the only other timer of \<^verbatim>\<open>main\<close> is the one of
  \<^verbatim>\<open>playPlaylist\<close>). A work-start handler, when it fires, registers one timer with delay
  \<open>WORK_INTERVAL_MS\<close> for the end of its work interval; the handler of that timer registers
  nothing when it starts a break, and what \<^verbatim>\<open>runFinalActions\<close> registers when it
  completes the program.
\<close>

theorem work_timers_up_front_breaks_chained:
  assumes "exit_status (main f e) = None"
  shows "filter (\<lambda>r. snd r \<noteq> ShuffleRepeatCb) (registered (main f e))
           = map (\<lambda>k. ((k - 1) * CYCLE_DURATION_MS f, RunCycleCb k)) [1..interval f]
             @ (if lastBreak f then [(interval f * CYCLE_DURATION_MS f, RunFinalActionsCb)] else [])
       \<and> snd (fire g f (RunCycleCb k)) = [(WORK_INTERVAL_MS f, WorkIntervalEnd k)]
       \<and> snd (fire g f (WorkIntervalEnd k))
           = (if k = interval f \<and> \<not> lastBreak f then snd (runFinalActions g) else [])"
proof -
  have q: "cycle_queue f 0
             = map (\<lambda>k. ((k - 1) * CYCLE_DURATION_MS f, RunCycleCb k)) [1..interval f]
               @ (if lastBreak f then [(interval f * CYCLE_DURATION_MS f, RunFinalActionsCb)] else [])"
    using upto_shift [of "\<lambda>k. ((k - 1) * CYCLE_DURATION_MS f, RunCycleCb k)" 0 "interval f - 1"]
    by (simp add: cycle_queue_def)
  have nf: "filter (\<lambda>r. snd r \<noteq> ShuffleRepeatCb) (cycle_queue f 0) = cycle_queue f 0"
    by (auto simp: cycle_queue_def filter_id_conv)
  have "filter (\<lambda>r. snd r \<noteq> ShuffleRepeatCb) (registered (main f e)) = cycle_queue f 0"
    using main_registered [OF assms] nf by auto
  then show ?thesis
    unfolding q by (simp add: runCycle_def work_interval_end_def)
qed

theorem work_timers_up_front_breaks_chained_witness:
  "exit_status (main default_flags quiet_env) = None
   \<and> filter (\<lambda>r. snd r \<noteq> ShuffleRepeatCb) (registered (main default_flags quiet_env))
       = [(0, RunCycleCb 1), (1800000, RunCycleCb 2), (3600000, RunCycleCb 3), (5400000, RunCycleCb 4)]
   \<and> snd (fire (glob (main default_flags quiet_env)) default_flags (RunCycleCb 4))
       = [(1500000, WorkIntervalEnd 4)]
   \<and> snd (fire (glob (main default_flags quiet_env)) default_flags (WorkIntervalEnd 3)) = []"
proof -
  have x: "exit_status (main default_flags quiet_env) = None"
    by (simp add: main_def initial_globals_def default_flags_def start_system_def split: prod.splits)
  have w: "map (\<lambda>k. ((k - 1) * CYCLE_DURATION_MS default_flags, RunCycleCb k)) [1..interval default_flags]
             @ (if lastBreak default_flags
                then [(interval default_flags * CYCLE_DURATION_MS default_flags, RunFinalActionsCb)]
                else [])
           = [(0, RunCycleCb 1), (1800000, RunCycleCb 2), (3600000, RunCycleCb 3), (5400000, RunCycleCb 4)]"
    by code_simp
  have v: "WORK_INTERVAL_MS default_flags = 1500000" "interval default_flags = 4"
    by (simp_all add: WORK_INTERVAL_MS_def default_flags_def)
  from x w v
    work_timers_up_front_breaks_chained [OF x, of "glob (main default_flags quiet_env)" 4]
    work_timers_up_front_breaks_chained [OF x, of "glob (main default_flags quiet_env)" 3]
  show ?thesis
    by simp
qed

subsection \<open>Mode selection\<close>

lemma schedule_cycles_playlist:
  "schedule_cycles (f\<lparr>playlist := p\<rparr>) i q = schedule_cycles f i q"
proof (induction f i q rule: schedule_cycles.induct)
  case (1 f i q)
  show ?case
  proof (cases "i < interval f")
    case True
    with "1" show ?thesis
      by (subst schedule_cycles.simps, subst (2) schedule_cycles.simps)
         (simp add: CYCLE_DURATION_MS_def WORK_INTERVAL_MS_def BREAK_INTERVAL_MS_def)
  next
    case False
    then show ?thesis
      by (subst schedule_cycles.simps, subst (2) schedule_cycles.simps) simp
  qed
qed

lemma start_timers_playlist: "start_timers (f\<lparr>playlist := p\<rparr>) q = start_timers f q"
  by (simp add: start_timers_def Let_def schedule_cycles_playlist CYCLE_DURATION_MS_def
      WORK_INTERVAL_MS_def BREAK_INTERVAL_MS_def)

lemma main_not_music:
  assumes "operatingMode (glob (main f e)) \<noteq> Music"
  shows "exit_status (main f e) = None \<and> originalVolume (glob (main f e)) = fst (getVolume e)
       \<and> set (snd (getVolume e)) \<subseteq> set (out (main f e)) \<and> registered (main f e) = start_timers f []"
  using assms
  by (auto simp: main_def start_youtube_def start_system_def start_music_def initial_globals_def
      Let_def split: prod.splits if_splits)

text \<open>
  C5. When the positional argument starts with \<^verbatim>\<open>http\<close> and a playlist is given as
  well, \<^verbatim>\<open>main\<close> selects YouTube mode, does not exit, and does exactly what it does for
  the same flags without the playlist: the playlist is never looked up, played or
  searched for.
\<close>

theorem url_wins_over_playlist:
  assumes "positional f = Some url" and "prefix ''http'' url" and "playlist f = Some name"
  shows "operatingMode (glob (main f e)) = YouTube
       \<and> exit_status (main f e) = None
       \<and> main f e = main (f\<lparr>playlist := None\<rparr>) e"
proof -
  from assms(2) have "url \<noteq> []" by auto
  with assms show ?thesis
    by (simp add: main_def initial_globals_def start_youtube_def start_timers_playlist
        split: prod.splits)
qed

theorem url_wins_over_playlist_witness:
  "operatingMode (glob (main (default_flags\<lparr>positional := Some ''https://youtu.be/x'', playlist := Some ''Deep Focus''\<rparr>) quiet_env)) = YouTube
   \<and> exit_status (main (default_flags\<lparr>positional := Some ''https://youtu.be/x'', playlist := Some ''Deep Focus''\<rparr>) quiet_env) = None
   \<and> main (default_flags\<lparr>positional := Some ''https://youtu.be/x'', playlist := Some ''Deep Focus''\<rparr>) quiet_env
     = main (default_flags\<lparr>positional := Some ''https://youtu.be/x'', playlist := Some ''Deep Focus''\<rparr>\<lparr>playlist := None\<rparr>) quiet_env"
  by (rule url_wins_over_playlist [where url = "''https://youtu.be/x''" and name = "''Deep Focus''"])
     (simp_all add: default_flags_def)

text \<open>
  C6, as stated, fails: the test of \<^verbatim>\<open>main\<close> is \<^verbatim>\<open>startsWith("http")\<close> on the argument
  as it is. An argument with a leading blank starts with a URL scheme once trimmed, and
  the program stays in System mode and opens nothing.
\<close>

theorem untrimmed_url_counterexample:
  "prefix ''https://'' (trim '' https://youtu.be/x'')
   \<and> operatingMode (glob (main (default_flags\<lparr>positional := Some '' https://youtu.be/x''\<rparr>) quiet_env)) = System
   \<and> RunCommand [''open'', '' https://youtu.be/x'']
        \<notin> set (out (main (default_flags\<lparr>positional := Some '' https://youtu.be/x''\<rparr>) quiet_env))"
  by (simp add: trim_def is_space_def main_def initial_globals_def start_system_def getVolume_def
      quiet_env_def
      default_flags_def logStatus_def)

text \<open>
  C6, amended. When the positional argument itself starts with \<^verbatim>\<open>http\<close>, \<^verbatim>\<open>main\<close>
  selects YouTube mode, opens the URL with the \<^verbatim>\<open>open\<close> command, then queries the
  volume, and the value of that query becomes \<^verbatim>\<open>originalVolume\<close>.
\<close>

theorem http_url_starts_youtube:
  assumes "positional f = Some url" and "prefix ''http'' url"
  shows "operatingMode (glob (main f e)) = YouTube
       \<and> out (main f e)
           = [ConsoleLog Initialized, LogStatus OpeningYouTube, RunCommand [''open'', url]]
               @ snd (getVolume e) @ [LogStatus (OriginalVolumeDetected (fst (getVolume e)))]
       \<and> originalVolume (glob (main f e)) = fst (getVolume e)"
proof -
  from assms(2) have "url \<noteq> []" by auto
  with assms show ?thesis
    by (simp add: main_def initial_globals_def start_youtube_def playYouTubeVideo_def logStatus_def
        split: prod.splits)
qed

theorem http_url_starts_youtube_witness:
  "operatingMode (glob (main (default_flags\<lparr>positional := Some ''https://youtu.be/x''\<rparr>) quiet_env)) = YouTube
   \<and> out (main (default_flags\<lparr>positional := Some ''https://youtu.be/x''\<rparr>) quiet_env)
       = [ConsoleLog Initialized, LogStatus OpeningYouTube, RunCommand [''open'', ''https://youtu.be/x'']]
           @ snd (getVolume quiet_env) @ [LogStatus (OriginalVolumeDetected (fst (getVolume quiet_env)))]
   \<and> originalVolume (glob (main (default_flags\<lparr>positional := Some ''https://youtu.be/x''\<rparr>) quiet_env))
       = fst (getVolume quiet_env)"
  by (rule http_url_starts_youtube) (simp_all add: default_flags_def)

text \<open>
  C4. Outside YouTube mode, with a playlist name that is not empty and that
  \<^verbatim>\<open>playlistExists\<close> does not find: without \<^verbatim>\<open>--search\<close> the program prints the two
  lines of the error message and exits with status 1, registering no timer; with
  \<^verbatim>\<open>--search\<close> it does not exit, opens the catalog search URL for the name and goes on
  to register the timers.
\<close>

theorem playlist_not_found:
  assumes "\<not> (truthy (positional f) \<and> prefix ''http'' (the (positional f)))"
    and "playlist f = Some name" and "name \<noteq> []"
    and "fst (playlistExists e name) = False"
  shows "(\<not> search f \<longrightarrow>
            exit_status (main f e) = Some 1
          \<and> out (main f e)
              = [ConsoleLog Initialized] @ snd (playlistExists e name)
                  @ [ConsoleError (PlaylistNotFound name), ConsoleError AddSearchFlagHint]
          \<and> registered (main f e) = [])
       \<and> (search f \<longrightarrow>
            exit_status (main f e) = None
          \<and> RunCommand [''open'', ''music://music.apple.com/search?term='' @ encodeURIComponent name]
              \<in> set (out (main f e))
          \<and> registered (main f e) = start_timers f [])"
proof -
  from assms(1,2,3) have m: "main f e = start_music f e name"
    by (auto simp: main_def Let_def)
  obtain acts where pe: "playlistExists e name = (False, acts)"
    using assms(4) by (cases "playlistExists e name") auto
  show ?thesis
    unfolding m by (simp add: start_music_def pe searchAndPlayMusic_def logStatus_def Let_def)
qed

theorem playlist_not_found_witness:
  "fst (playlistExists quiet_env ''Deep Focus'') = False
   \<and> exit_status (main playlist_flags quiet_env) = Some 1
   \<and> out (main playlist_flags quiet_env)
       = [ConsoleLog Initialized] @ snd (playlistExists quiet_env ''Deep Focus'')
           @ [ConsoleError (PlaylistNotFound ''Deep Focus''), ConsoleError AddSearchFlagHint]
   \<and> exit_status (main (playlist_flags\<lparr>search := True\<rparr>) quiet_env) = None
   \<and> RunCommand [''open'', ''music://music.apple.com/search?term=Deep%20Focus'']
        \<in> set (out (main (playlist_flags\<lparr>search := True\<rparr>) quiet_env))"
proof -
  have nf: "fst (playlistExists quiet_env ''Deep Focus'') = False"
    by (simp add: playlistExists_def quiet_env_def trim_def is_space_def)
  have enc: "encodeURIComponent ''Deep Focus'' = ''Deep%20Focus''"
    by code_simp
  have off: "\<not> search playlist_flags \<and> search (playlist_flags\<lparr>search := True\<rparr>)"
    by (simp add: playlist_flags_def default_flags_def)
  have a: "\<not> search playlist_flags \<longrightarrow>
             exit_status (main playlist_flags quiet_env) = Some 1
           \<and> out (main playlist_flags quiet_env)
               = [ConsoleLog Initialized] @ snd (playlistExists quiet_env ''Deep Focus'')
                   @ [ConsoleError (PlaylistNotFound ''Deep Focus''), ConsoleError AddSearchFlagHint]
           \<and> registered (main playlist_flags quiet_env) = []"
    using playlist_not_found [of playlist_flags "''Deep Focus''" quiet_env] nf
    by (simp add: playlist_flags_def default_flags_def)
  have b: "search (playlist_flags\<lparr>search := True\<rparr>) \<longrightarrow>
             exit_status (main (playlist_flags\<lparr>search := True\<rparr>) quiet_env) = None
           \<and> RunCommand [''open'', ''music://music.apple.com/search?term='' @ encodeURIComponent ''Deep Focus'']
               \<in> set (out (main (playlist_flags\<lparr>search := True\<rparr>) quiet_env))
           \<and> registered (main (playlist_flags\<lparr>search := True\<rparr>) quiet_env)
               = start_timers (playlist_flags\<lparr>search := True\<rparr>) []"
    using playlist_not_found [of "playlist_flags\<lparr>search := True\<rparr>" "''Deep Focus''" quiet_env] nf
    by (simp add: playlist_flags_def default_flags_def)
  from a b off nf enc show ?thesis
    by simp
qed

subsection \<open>Volume query\<close>



text \<open>
  C10. When the volume query completes and its trimmed output has no leading integer,
  \<^verbatim>\<open>getVolume\<close> returns \<^verbatim>\<open>NaN\<close> without taking the fallback branch (no error line
  is printed); in System and YouTube mode \<^verbatim>\<open>NaN\<close> becomes \<^verbatim>\<open>originalVolume\<close>, and
  \<^verbatim>\<open>restoreSystemVolume\<close> passes it on to the volume script. For any answer of the
  operating system, the fallback branch is taken exactly when the query throws.
\<close>

theorem unparsable_volume_is_NaN:
  assumes "volume_query e = Completed stdout" and "parseInt (trim stdout) = NaN"
  shows "fst (getVolume e) = NaN
       \<and> ConsoleError CouldNotGetVolume \<notin> set (snd (getVolume e))
       \<and> (ConsoleError CouldNotGetVolume \<in> set (snd (getVolume e'))) = (volume_query e' = Throws)
       \<and> (operatingMode (glob (main f e)) \<noteq> Music \<longrightarrow>
            originalVolume (glob (main f e)) = NaN
          \<and> restoreSystemVolume (glob (main f e))
              = [LogStatus (RestoringVolume NaN),
                 RunCommand [''osascript'', ''-e'', ''set volume output volume NaN'']])"
proof -
  from assms have gv: "fst (getVolume e) = NaN"
    and lg: "ConsoleError CouldNotGetVolume \<notin> set (snd (getVolume e))"
    by (simp_all add: getVolume_def)
  have only: "(ConsoleError CouldNotGetVolume \<in> set (snd (getVolume e'))) = (volume_query e' = Throws)"
    by (cases "volume_query e'") (simp_all add: getVolume_def)
  show ?thesis
    using gv lg only main_not_music [of f e]
    by (auto simp: restoreSystemVolume_def setVolume_def executeAppleScript_def logStatus_def)
qed

theorem unparsable_volume_is_NaN_witness:
  "volume_query silent_env = Completed [] \<and> parseInt (trim []) = NaN
   \<and> operatingMode (glob (main default_flags silent_env)) \<noteq> Music
   \<and> fst (getVolume silent_env) = NaN
   \<and> originalVolume (glob (main default_flags silent_env)) = NaN"
proof -
  have q: "volume_query silent_env = Completed []"
    by (simp add: silent_env_def)
  have p: "parseInt (trim []) = NaN"
    by (simp add: parseInt_def trim_def)
  have m: "operatingMode (glob (main default_flags silent_env)) \<noteq> Music"
    by (simp add: main_def initial_globals_def default_flags_def start_system_def split: prod.splits)
  show ?thesis
    using q p m unparsable_volume_is_NaN [OF q p, where f = default_flags] by blast
qed

subsection \<open>Music mode and the volume\<close>

lemma setVolume_is_volume_action: "list_all is_volume_action (setVolume level)"
  by (simp add: setVolume_def executeAppleScript_def)

lemma getVolume_has_volume_action: "list_ex is_volume_action (snd (getVolume e))"
  by (simp add: getVolume_def volume_script_def split: cmd_result.splits)

lemma music_handlers_no_volume:
  assumes "operatingMode g = Music" and "a \<in> set (fst (fire g f cb))"
  shows "\<not> is_volume_action a"
  using assms
  by (cases cb)
     (auto simp: runCycle_def work_interval_end_def runFinalActions_def playCompletionSound_def
        sound_loop_def resumeMusic_def pauseMusic_def stopMusic_def logStatus_def
        executeAppleScript_def shuffle_repeat_script_def volume_script_def newline_def Let_def
        split: if_splits)

lemma music_run_no_volume:
  "operatingMode g = Music \<Longrightarrow> (t, a) \<in> set (run g f q) \<Longrightarrow> \<not> is_volume_action a"
proof (induction g f q rule: run.induct)
  case (1 g f)
  then show ?case by (simp add: run.simps)
next
  case (2 g f t' cb q)
  from "2.prems"(2) have "a \<in> set (fst (fire g f cb))
      \<or> (t, a) \<in> set (run g f (register t' (snd (fire g f cb)) q))"
    by (auto simp: run.simps)
  then show ?case
    using "2.IH" "2.prems"(1) music_handlers_no_volume [of g a f cb] by blast
qed

lemma music_startup_no_volume:
  assumes "operatingMode (glob (main f e)) = Music" and "a \<in> set (out (main f e))"
  shows "\<not> is_volume_action a"
proof -
  from assms(1) have m: "main f e = start_music f e (the (playlist f))"
    by (auto simp: main_def initial_globals_def start_youtube_def start_system_def Let_def
        split: prod.splits if_splits)
  show ?thesis
    using assms(2) unfolding m
    by (auto simp: start_music_def playlistExists_def playPlaylist_def searchAndPlayMusic_def
        logStatus_def executeAppleScript_def exists_script_def play_script_def volume_script_def
        Let_def split: prod.splits if_splits cmd_result.splits)
qed

text \<open>
  C9. In a run whose operating mode is Music, no action of \<^verbatim>\<open>main\<close> and no action of
  any timer handler, at any time, is a volume command; the work-start handler resumes
  the music, the break-start handler pauses it, and the completion stops it.
\<close>

theorem music_mode_never_touches_volume:
  assumes "operatingMode (glob (main f e)) = Music"
  shows "(\<forall>a \<in> set (out (main f e)). \<not> is_volume_action a)
       \<and> (\<forall>(t, a) \<in> set (session f e). \<not> is_volume_action a)
       \<and> fst (runCycle (glob (main f e)) f k)
           = resumeMusic @ logStatus (StartingWork (work f) k (interval f))
       \<and> (k \<noteq> interval f \<or> lastBreak f \<longrightarrow>
            fst (work_interval_end (glob (main f e)) f k)
              = logStatus (StartingBreak (break f) k (interval f)) @ pauseMusic)
       \<and> fst (runFinalActions (glob (main f e)))
           = logStatus AllCyclesComplete @ stopMusic @ fst playCompletionSound"
proof -
  have "\<forall>(t, a) \<in> set (session f e). \<not> is_volume_action a"
    using music_run_no_volume [OF assms] by (auto simp: session_def Let_def)
  then show ?thesis
    using assms music_startup_no_volume [of f e]
    by (auto simp: runCycle_def work_interval_end_def runFinalActions_def Let_def)
qed

theorem music_mode_never_touches_volume_witness:
  "operatingMode (glob (main playlist_flags found_env)) = Music
   \<and> last (out (main playlist_flags found_env)) \<in> set (out (main playlist_flags found_env))
   \<and> \<not> is_volume_action (last (out (main playlist_flags found_env)))
   \<and> (0, last resumeMusic) \<in> set (session playlist_flags found_env)
   \<and> \<not> is_volume_action (last resumeMusic)
   \<and> fst (work_interval_end (glob (main playlist_flags found_env)) playlist_flags 1)
       = logStatus (StartingBreak 5 1 4) @ pauseMusic"
proof -
  have m: "operatingMode (glob (main playlist_flags found_env)) = Music"
    by (simp add: main_def playlist_flags_def default_flags_def start_music_def
        initial_globals_def Let_def split: prod.splits)
  have o: "last (out (main playlist_flags found_env)) \<in> set (out (main playlist_flags found_env))"
    by code_simp
  have s: "(0, last resumeMusic) \<in> set (session playlist_flags found_env)"
    by code_simp
  have k: "(1::int) \<noteq> interval playlist_flags \<or> lastBreak playlist_flags"
    by (simp add: playlist_flags_def default_flags_def)
  have v: "break playlist_flags = 5 \<and> interval playlist_flags = 4"
    by (simp add: playlist_flags_def default_flags_def)
  from m o s k v music_mode_never_touches_volume [OF m, of 1] show ?thesis
    by auto
qed

subsection \<open>Playlist names in scripts\<close>

lemma no_dq_never_closes: "dq \<notin> set s \<Longrightarrow> \<not> closes_early s"
  by (induction s rule: closes_early.induct) auto

lemma set_replace_quotes: "set (replace_quotes name) \<subseteq> set name \<union> {sq, backslash}"
  by (induction name) auto

lemma replace_quotes_concat:
  "replace_quotes name = concat (map (\<lambda>c. if c = sq then [sq, backslash, sq, sq] else [c]) name)"
  by (induction name) auto

text \<open>
  C7. The property fails on the code. Every single quote of the name is replaced, but
  the name is interpolated between double quotes, which are left as they are: for the
  name \<^verbatim>\<open>Ben's "Focus"\<close>, which contains a single quote, the text put between the
  double quotes of the scripts of \<^verbatim>\<open>playlistExists\<close> and \<^verbatim>\<open>playPlaylist\<close> closes the
  string literal early.
\<close>

theorem quoted_name_closes_literal:
  "sq \<in> set quoted_name
   \<and> replace_quotes quoted_name
       = ''Ben'' @ [sq, backslash, sq, sq] @ ''s '' @ [dq] @ ''Focus'' @ [dq]
   \<and> closes_early (replace_quotes quoted_name)
   \<and> RunCommand [''osascript'', ''-e'', exists_script (replace_quotes quoted_name)]
       \<in> set (snd (playlistExists quiet_env quoted_name))
   \<and> RunCommand [''osascript'', ''-e'', play_script (replace_quotes quoted_name)]
       \<in> set (fst (playPlaylist quoted_name))"
  by (simp add: quoted_name_def sq_def dq_def backslash_def playPlaylist_def playlistExists_def
      quiet_env_def executeAppleScript_def logStatus_def Let_def)

text \<open>
  What the replacement does guarantee: each single quote becomes the four characters
  quote, backslash, quote, quote, every other character is kept, the result is what both
  scripts receive, and a name without a double quote cannot close the literal early.
\<close>

lemma single_quotes_replaced:
  "replace_quotes name = concat (map (\<lambda>c. if c = sq then [sq, backslash, sq, sq] else [c]) name)
   \<and> RunCommand [''osascript'', ''-e'', exists_script (replace_quotes name)]
       \<in> set (snd (playlistExists e name))
   \<and> RunCommand [''osascript'', ''-e'', play_script (replace_quotes name)]
       \<in> set (fst (playPlaylist name))
   \<and> (dq \<notin> set name \<longrightarrow> \<not> closes_early (replace_quotes name))"
proof -
  have "dq \<notin> set name \<longrightarrow> dq \<notin> set (replace_quotes name)"
    using set_replace_quotes [of name] by (auto simp: dq_def sq_def backslash_def)
  then have "dq \<notin> set name \<longrightarrow> \<not> closes_early (replace_quotes name)"
    using no_dq_never_closes by blast
  moreover have "RunCommand [''osascript'', ''-e'', exists_script (replace_quotes name)]
       \<in> set (snd (playlistExists e name))"
    by (simp add: playlistExists_def Let_def split: cmd_result.splits)
  moreover have "RunCommand [''osascript'', ''-e'', play_script (replace_quotes name)]
       \<in> set (fst (playPlaylist name))"
    by (simp add: playPlaylist_def executeAppleScript_def logStatus_def Let_def)
  ultimately show ?thesis
    using replace_quotes_concat by blast
qed

end
